theory Spec2Isabelle
  imports Complex_Main
begin

section \<open>JavaScript values\<close>

text \<open>
  The library under verification is \<^verbatim>\<open>src/index.ts\<close> (with its compiled build
  \<^verbatim>\<open>dist/index.js\<close>): \<^verbatim>\<open>EnumCase\<close>, \<^verbatim>\<open>createEnumCase\<close> and
  \<^verbatim>\<open>createBackedEnum\<close>, whose local class \<^verbatim>\<open>BackedEnum\<close> has a constructor and the
  methods \<^verbatim>\<open>from\<close> and \<^verbatim>\<open>values\<close>.

  Numbers are taken up to the equality that a \<^verbatim>\<open>Map\<close> applies to its keys
  (SameValueZero): \<open>+0\<close> and \<open>-0\<close> are one value and \<open>NaN\<close> is equal to itself.
  Every finite double is a rational, so \<open>Finite\<close> covers them all.
\<close>

datatype jsnum = Finite rat | PosInfinity | NegInfinity | NaN

text \<open>A backing value: \<^verbatim>\<open>string | number\<close>.\<close>

datatype prim = PStr string | PNum jsnum

type_synonym addr = nat

text \<open>Any value a caller can hand to \<^verbatim>\<open>from(value: unknown)\<close>. Objects and functions are
  references into the heap; \<open>===\<close> on them is equality of addresses.\<close>

datatype jsval =
    JUndefined
  | JNull
  | JBoolean bool
  | JNumber jsnum
  | JString string
  | JSymbol nat
  | JBigInt int
  | JFunction addr
  | JObject addr

fun typeof :: "jsval \<Rightarrow> string" where
  "typeof JUndefined = ''undefined''"
| "typeof JNull = ''object''"
| "typeof (JBoolean b) = ''boolean''"
| "typeof (JNumber n) = ''number''"
| "typeof (JString s) = ''string''"
| "typeof (JSymbol n) = ''symbol''"
| "typeof (JBigInt i) = ''bigint''"
| "typeof (JFunction a) = ''function''"
| "typeof (JObject a) = ''object''"

fun of_prim :: "prim \<Rightarrow> jsval" where
  "of_prim (PStr s) = JString s"
| "of_prim (PNum n) = JNumber n"

datatype failure =
    TypeError
  | TraitCall string  \<comment> \<open>control passes to a trait method of that name (caller's code)\<close>
  | ProxyTrap string  \<comment> \<open>control passes to that trap of a \<^verbatim>\<open>Proxy\<close> (caller's code; a
      revoked \<^verbatim>\<open>Proxy\<close> throws a \<^verbatim>\<open>TypeError\<close> there)\<close>

text \<open>What a call does: it returns a result, it throws, or it never returns (\<open>None\<close>;
  JavaScript then throws a \<^verbatim>\<open>RangeError\<close> once the stack is exhausted).\<close>

abbreviation Returns :: "'a \<Rightarrow> (failure + 'a) option" where
  "Returns r \<equiv> Some (Inr r)"

abbreviation Throws :: "failure \<Rightarrow> (failure + 'a) option" where
  "Throws e \<equiv> Some (Inl e)"

section \<open>\<^verbatim>\<open>isNaN(Number(key))\<close>\<close>

text \<open>
  \<^verbatim>\<open>Number\<close> applied to a string follows the grammar \<open>StringNumericLiteral\<close> of
  ECMAScript: the string is trimmed of white space; the empty string is \<open>0\<close>; otherwise it
  must be a signed decimal literal (digits, an optional fraction, an optional exponent, or
  \<^verbatim>\<open>Infinity\<close>) or an unsigned binary, octal or hexadecimal integer literal; anything
  else is \<open>NaN\<close>. Only whether the result is \<open>NaN\<close> matters to the filter. Strings are
  lists of 8-bit code units, so the white space is TAB, LF, VT, FF, CR, SP and NBSP.
\<close>

definition StrWhiteSpaceChar :: "char \<Rightarrow> bool" where
  "StrWhiteSpaceChar c = (of_char c \<in> {9, 10, 11, 12, 13, 32, 160 :: nat})"

definition trim :: "string \<Rightarrow> string" where
  "trim s = rev (dropWhile StrWhiteSpaceChar (rev (dropWhile StrWhiteSpaceChar s)))"

definition DecimalDigit :: "char \<Rightarrow> bool" where
  "DecimalDigit c = (c \<in> set ''0123456789'')"

definition DecimalDigits :: "string \<Rightarrow> bool" where
  "DecimalDigits s = (s \<noteq> [] \<and> list_all DecimalDigit s)"

definition SignedInteger :: "string \<Rightarrow> bool" where
  "SignedInteger s =
     (case s of
        c # t \<Rightarrow> if c = CHR ''+'' \<or> c = CHR ''-'' then DecimalDigits t else DecimalDigits s
      | [] \<Rightarrow> False)"

definition ExponentPart_opt :: "string \<Rightarrow> bool" where
  "ExponentPart_opt s =
     (case s of
        [] \<Rightarrow> True
      | c # t \<Rightarrow> (c = CHR ''e'' \<or> c = CHR ''E'') \<and> SignedInteger t)"

definition StrUnsignedDecimalLiteral :: "string \<Rightarrow> bool" where
  "StrUnsignedDecimalLiteral s =
     (s = ''Infinity'' \<or>
      (let ip = takeWhile DecimalDigit s; r = dropWhile DecimalDigit s in
       case r of
         c # t \<Rightarrow>
           if c = CHR ''.''
           then (ip \<noteq> [] \<or> takeWhile DecimalDigit t \<noteq> []) \<and>
                ExponentPart_opt (dropWhile DecimalDigit t)
           else ip \<noteq> [] \<and> ExponentPart_opt r
       | [] \<Rightarrow> ip \<noteq> []))"

definition StrDecimalLiteral :: "string \<Rightarrow> bool" where
  "StrDecimalLiteral s =
     (case s of
        c # t \<Rightarrow>
          if c = CHR ''+'' \<or> c = CHR ''-''
          then StrUnsignedDecimalLiteral t else StrUnsignedDecimalLiteral s
      | [] \<Rightarrow> False)"

definition NonDecimalIntegerLiteral :: "string \<Rightarrow> bool" where
  "NonDecimalIntegerLiteral s =
     (case s of
        z # x # ds \<Rightarrow>
          z = CHR ''0'' \<and> ds \<noteq> [] \<and>
          (if x \<in> set ''bB'' then list_all (\<lambda>d. d \<in> set ''01'') ds
           else if x \<in> set ''oO'' then list_all (\<lambda>d. d \<in> set ''01234567'') ds
           else if x \<in> set ''xX''
             then list_all (\<lambda>d. d \<in> set ''0123456789abcdefABCDEF'') ds
           else False)
      | _ \<Rightarrow> False)"

definition isNaN_Number :: "string \<Rightarrow> bool" where
  "isNaN_Number key =
     (let s = trim key in
      \<not> (s = [] \<or> StrDecimalLiteral s \<or> NonDecimalIntegerLiteral s))"

section \<open>Case classes and case instances\<close>

text \<open>
  A method body is either the one \<^verbatim>\<open>EnumCase\<close> declares (\<^verbatim>\<open>toString\<close>, returning
  \<^verbatim>\<open>String(this.value)\<close>) or one that a trait supplies, which is the caller's code and
  stays a parameter \<open>'b\<close>.
\<close>

datatype 'b method_body = EnumCase_toString | Trait_method 'b

text \<open>A constructor function: its identity, the constructors above it on the prototype
  chain, and the methods its instances answer to.\<close>

record 'b case_class =
  class_id :: nat
  supers :: "nat list"
  methods :: "string \<rightharpoonup> 'b method_body"

definition EnumCase :: "'b case_class" where
  "EnumCase = \<lparr>class_id = 0, supers = [], methods = [''toString'' \<mapsto> EnumCase_toString]\<rparr>"

text \<open>An instance: the constructors on its prototype chain and the two fields that the
  constructor of \<^verbatim>\<open>EnumCase\<close> assigns. The type \<^verbatim>\<open>V extends string | number\<close> of
  \<^verbatim>\<open>value\<close> binds the compiler only: an object that a caller hands to \<^verbatim>\<open>from\<close> may
  hold any value there, another instance or itself included.\<close>

record enum_case =
  proto :: "nat list"
  name :: string
  "value" :: jsval

text \<open>The objects of the heap: case instances, \<^verbatim>\<open>Proxy\<close> objects, and all others (plain
  objects, arrays, functions).\<close>

datatype jsobj = Case enum_case | Proxy | Other

type_synonym heap = "jsobj list"

definition deref :: "heap \<Rightarrow> addr \<Rightarrow> jsobj option" where
  "deref h a = (if a < length h then Some (h ! a) else None)"

text \<open>\<^verbatim>\<open>new CaseClass(key, value)\<close>: a fresh object, at the first free address, with
  the fields that the constructor of \<^verbatim>\<open>EnumCase\<close> assigns; a composed case class
  forwards its arguments to that constructor.\<close>

definition new_case :: "'b case_class \<Rightarrow> string \<Rightarrow> prim \<Rightarrow> jsobj" where
  "new_case C key v = Case \<lparr>proto = class_id C # supers C, name = key, value = of_prim v\<rparr>"

definition new :: "'b case_class \<Rightarrow> string \<Rightarrow> prim \<Rightarrow> heap \<Rightarrow> addr \<times> heap" where
  "new C key v h = (length h, h @ [new_case C key v])"

text \<open>\<^verbatim>\<open>value instanceof CaseClass\<close>, giving the instance when it holds. The test walks the
  prototype chain of an object or function; on a \<^verbatim>\<open>Proxy\<close> that is the
  \<^verbatim>\<open>getPrototypeOf\<close> trap. On every other value it is \<^verbatim>\<open>false\<close>.\<close>

definition proxied :: "heap \<Rightarrow> addr \<Rightarrow> bool" where
  "proxied h a = (deref h a = Some Proxy)"

definition instanceof :: "heap \<Rightarrow> jsval \<Rightarrow> 'b case_class \<Rightarrow> failure + enum_case option" where
  "instanceof h v C =
     (case v of
        JObject a \<Rightarrow>
          (case deref h a of
             Some (Case c) \<Rightarrow> Inr (if class_id C \<in> set (proto c) then Some c else None)
           | Some Proxy \<Rightarrow> Inl (ProxyTrap ''getPrototypeOf'')
           | _ \<Rightarrow> Inr None)
      | JFunction a \<Rightarrow>
          if proxied h a then Inl (ProxyTrap ''getPrototypeOf'') else Inr None
      | _ \<Rightarrow> Inr None)"

text \<open>The property reads \<^verbatim>\<open>o.name\<close> and \<^verbatim>\<open>o.value\<close> on the object at an address.\<close>

definition get_name :: "heap \<Rightarrow> addr \<Rightarrow> jsval" where
  "get_name h a = (case deref h a of Some (Case c) \<Rightarrow> JString (name c) | _ \<Rightarrow> JUndefined)"

definition get_value :: "heap \<Rightarrow> addr \<Rightarrow> jsval" where
  "get_value h a = (case deref h a of Some (Case c) \<Rightarrow> value c | _ \<Rightarrow> JUndefined)"

section \<open>The enumeration definition\<close>

text \<open>
  \<^verbatim>\<open>EnumLike = Readonly<Record<string, string | number>>\<close>: an object, given by the
  list \<^verbatim>\<open>Object.keys(baseEnum)\<close> of its own enumerable keys (in the order JavaScript
  enumerates them) and by the property read \<^verbatim>\<open>baseEnum[key]\<close>, which the constructor
  applies to own keys only. The keys of an object are distinct.
\<close>

record enum_like =
  Object_keys :: "string list"
  property :: "string \<Rightarrow> prim"

text \<open>An object literal: the given properties, in the order written. The constructor
  reads no key that the object lacks; the literal answers such a read with the empty
  string.\<close>

definition object :: "(string \<times> prim) list \<Rightarrow> enum_like" where
  "object kvs =
     \<lparr>Object_keys = map fst kvs,
      property = (\<lambda>k. case map_of kvs k of Some v \<Rightarrow> v | None \<Rightarrow> PStr [])\<rparr>"

text \<open>\<^verbatim>\<open>const keys = Object.keys(baseEnum).filter((key) => isNaN(Number(key)))\<close>\<close>

definition keys :: "enum_like \<Rightarrow> string list" where
  "keys baseEnum = filter (\<lambda>key. isNaN_Number key) (Object_keys baseEnum)"

section \<open>The class \<^verbatim>\<open>BackedEnum\<close>\<close>

text \<open>
  The collection is one JavaScript object. Its own properties share one name space: the
  fields \<^verbatim>\<open>cases\<close> (an array) and \<^verbatim>\<open>map\<close> (a \<^verbatim>\<open>Map\<close>), written by the field
  initialisers, and one property per key, written by \<^verbatim>\<open>Object.defineProperty\<close>. The
  methods \<^verbatim>\<open>from\<close> and \<^verbatim>\<open>values\<close> live on the prototype, so an own property of
  either name hides them. \<^verbatim>\<open>CaseClass\<close> is the variable the class closes over.
\<close>

datatype slot =
    Array "addr list"
  | RevMap "prim \<rightharpoonup> addr"
  | Ref addr

type_synonym props = "string \<rightharpoonup> slot"

record 'b backed_enum =
  CaseClass :: "'b case_class"
  own :: props

text \<open>Calling a member that arrays or \<^verbatim>\<open>Map\<close>s have on a case instance instead: a
  \<^verbatim>\<open>TypeError\<close>, unless a trait gave the case class a method of that name.\<close>

definition call_on_case :: "'b case_class \<Rightarrow> string \<Rightarrow> failure" where
  "call_on_case C m = (case methods C m of None \<Rightarrow> TypeError | Some _ \<Rightarrow> TraitCall m)"

text \<open>\<^verbatim>\<open>this.cases.push(instance)\<close>\<close>

definition cases_push :: "'b case_class \<Rightarrow> props \<Rightarrow> addr \<Rightarrow> failure + props" where
  "cases_push C this instance =
     (case this ''cases'' of
        Some (Array xs) \<Rightarrow> Inr (this(''cases'' \<mapsto> Array (xs @ [instance])))
      | Some (Ref _) \<Rightarrow> Inl (call_on_case C ''push'')
      | _ \<Rightarrow> Inl TypeError)"

text \<open>\<^verbatim>\<open>this.map.set(value, instance)\<close>\<close>

definition map_set :: "'b case_class \<Rightarrow> props \<Rightarrow> prim \<Rightarrow> addr \<Rightarrow> failure + props" where
  "map_set C this v instance =
     (case this ''map'' of
        Some (RevMap m) \<Rightarrow> Inr (this(''map'' \<mapsto> RevMap (m(v \<mapsto> instance))))
      | Some (Ref _) \<Rightarrow> Inl (call_on_case C ''set'')
      | _ \<Rightarrow> Inl TypeError)"

text \<open>\<^verbatim>\<open>Object.defineProperty(this, key, { value: instance, enumerable: true })\<close>: a new
  property, or a new value for the field of that name, which a field initialiser has
  left writable and configurable. The keys of an object are distinct, so no property that
  this call has defined is defined again.\<close>

definition defineProperty :: "props \<Rightarrow> string \<Rightarrow> addr \<Rightarrow> props" where
  "defineProperty this key instance = this(key \<mapsto> Ref instance)"

text \<open>The loop \<^verbatim>\<open>for (const key of keys)\<close> of the constructor, on the properties of
  \<^verbatim>\<open>this\<close> and the heap.\<close>

fun BackedEnum_constructor ::
  "'b case_class \<Rightarrow> enum_like \<Rightarrow> string list \<Rightarrow> props \<times> heap \<Rightarrow> failure + props \<times> heap"
where
  "BackedEnum_constructor C baseEnum [] s = Inr s"
| "BackedEnum_constructor C baseEnum (key # ks) (this, h) =
     (let v = property baseEnum key;
          (instance, h') = new C key v h
      in case cases_push C this instance of
           Inl e \<Rightarrow> Inl e
         | Inr this1 \<Rightarrow>
             (case map_set C this1 v instance of
                Inl e \<Rightarrow> Inl e
              | Inr this2 \<Rightarrow>
                  BackedEnum_constructor C baseEnum ks
                    (defineProperty this2 key instance, h')))"

text \<open>\<^verbatim>\<open>createBackedEnum(baseEnum, CaseClass = EnumCase)\<close>: the field initialisers, then
  the constructor's loop; \<open>h\<close> is the heap at the call.\<close>

definition createBackedEnum ::
  "heap \<Rightarrow> enum_like \<Rightarrow> 'b case_class \<Rightarrow> failure + 'b backed_enum \<times> heap"
where
  "createBackedEnum h baseEnum C =
     (case BackedEnum_constructor C baseEnum (keys baseEnum)
             ([''cases'' \<mapsto> Array [], ''map'' \<mapsto> RevMap Map.empty], h) of
        Inl e \<Rightarrow> Inl e
      | Inr (this, h') \<Rightarrow> Inr (\<lparr>CaseClass = C, own = this\<rparr>, h'))"

text \<open>\<^verbatim>\<open>Map.prototype.get\<close> on a map whose keys are strings and numbers: a candidate of
  any other kind matches no key.\<close>

fun Map_get :: "(prim \<rightharpoonup> addr) \<Rightarrow> jsval \<Rightarrow> addr option" where
  "Map_get m (JString s) = m (PStr s)"
| "Map_get m (JNumber n) = m (PNum n)"
| "Map_get m _ = None"

text \<open>\<^verbatim>\<open>this.map.get(value)\<close>\<close>

definition map_get :: "'b backed_enum \<Rightarrow> jsval \<Rightarrow> failure + addr option" where
  "map_get this v =
     (case own this ''map'' of
        Some (RevMap m) \<Rightarrow> Inr (Map_get m v)
      | Some (Ref _) \<Rightarrow> Inl (call_on_case (CaseClass this) ''get'')
      | _ \<Rightarrow> Inl TypeError)"

text \<open>The method \<^verbatim>\<open>from\<close> of the source, \<^verbatim>\<open>src/index.ts\<close>. The result
  \<open>Returns None\<close> is \<^verbatim>\<open>undefined\<close>. The recursive call \<^verbatim>\<open>this.from(value.value)\<close>
  looks \<^verbatim>\<open>from\<close> up on \<^verbatim>\<open>this\<close>, where an own property (a case instance, not
  callable) hides the method; it passes on whatever the instance holds as its value, so
  the recursion need not end.\<close>

partial_function (option) BackedEnum_from ::
  "'b backed_enum \<Rightarrow> heap \<Rightarrow> jsval \<Rightarrow> (failure + addr option) option"
where
  "BackedEnum_from this h v =
     (case instanceof h v (CaseClass this) of
        Inl e \<Rightarrow> Throws e
      | Inr (Some c) \<Rightarrow>
          (case own this ''from'' of
             None \<Rightarrow> BackedEnum_from this h (value c)
           | Some _ \<Rightarrow> Throws TypeError)
      | Inr None \<Rightarrow>
          if typeof v \<noteq> ''string'' \<and> typeof v \<noteq> ''number'' then Returns None
          else Some (map_get this v))"

text \<open>The method \<^verbatim>\<open>from\<close> of the build, \<^verbatim>\<open>dist/index.js\<close>:
  \<^verbatim>\<open>return this.map.get(value)\<close>.\<close>

definition dist_BackedEnum_from :: "'b backed_enum \<Rightarrow> heap \<Rightarrow> jsval \<Rightarrow> failure + addr option" where
  "dist_BackedEnum_from this h v = map_get this v"

text \<open>The method \<^verbatim>\<open>values\<close>: \<^verbatim>\<open>this.cases.map((_case) => _case.value)\<close>.\<close>

definition BackedEnum_values :: "'b backed_enum \<Rightarrow> heap \<Rightarrow> failure + jsval list" where
  "BackedEnum_values this h =
     (case own this ''cases'' of
        Some (Array xs) \<Rightarrow> Inr (map (get_value h) xs)
      | Some (Ref _) \<Rightarrow> Inl (call_on_case (CaseClass this) ''map'')
      | _ \<Rightarrow> Inl TypeError)"

text \<open>What a caller writes: \<^verbatim>\<open>collection.from(x)\<close> and \<^verbatim>\<open>collection.values()\<close> look
  the member up on the collection first; \<^verbatim>\<open>collection.cases[i]\<close> reads an index of
  whatever \<^verbatim>\<open>cases\<close> holds.\<close>

definition call_from ::
  "'b backed_enum \<Rightarrow> heap \<Rightarrow> jsval \<Rightarrow> (failure + addr option) option"
where
  "call_from collection h x =
     (case own collection ''from'' of
        None \<Rightarrow> BackedEnum_from collection h x
      | Some _ \<Rightarrow> Throws TypeError)"

definition call_dist_from :: "'b backed_enum \<Rightarrow> heap \<Rightarrow> jsval \<Rightarrow> failure + addr option" where
  "call_dist_from collection h x =
     (case own collection ''from'' of
        None \<Rightarrow> dist_BackedEnum_from collection h x
      | Some _ \<Rightarrow> Inl TypeError)"

definition call_values :: "'b backed_enum \<Rightarrow> heap \<Rightarrow> failure + jsval list" where
  "call_values collection h =
     (case own collection ''values'' of
        None \<Rightarrow> BackedEnum_values collection h
      | Some _ \<Rightarrow> Inl TypeError)"

definition cases_at :: "'b backed_enum \<Rightarrow> nat \<Rightarrow> addr option" where
  "cases_at collection i =
     (case own collection ''cases'' of
        Some (Array xs) \<Rightarrow> if i < length xs then Some (xs ! i) else None
      | _ \<Rightarrow> None)"

text \<open>\<^verbatim>\<open>collection[k]\<close>, the named accessor.\<close>

definition accessor :: "'b backed_enum \<Rightarrow> string \<Rightarrow> addr option" where
  "accessor collection k = (case own collection k of Some (Ref a) \<Rightarrow> Some a | _ \<Rightarrow> None)"

section \<open>Trait composition\<close>

text \<open>
  Modelled from the spec: \<^verbatim>\<open>withTraits\<close> of the package \<^verbatim>\<open>@daniloivk/ts-traits\<close>, which
  \<^verbatim>\<open>createEnumCase\<close> imports and which is not among the sources. The spec (sections
  4.1, 6 and 9) has it build a new type on the base whose method table starts from the
  base's methods and takes each module's methods in the supplied order, a later entry
  replacing an earlier one of the same name. A module is its table of methods;
  \<open>fresh\<close> is the identity of the constructor that the call creates.
\<close>

type_synonym 'b trait = "string \<rightharpoonup> 'b method_body"

definition withTraits :: "nat \<Rightarrow> 'b case_class \<Rightarrow> 'b trait list \<Rightarrow> 'b case_class" where
  "withTraits fresh Base traits =
     \<lparr>class_id = fresh,
      supers = class_id Base # supers Base,
      methods = foldl (++) (methods Base) traits\<rparr>"

text \<open>\<^verbatim>\<open>createEnumCase(...traits)\<close>: \<^verbatim>\<open>return withTraits(EnumCase, ...traits)\<close>.\<close>

definition createEnumCase :: "nat \<Rightarrow> 'b trait list \<Rightarrow> 'b case_class" where
  "createEnumCase fresh traits = withTraits fresh EnumCase traits"

section \<open>Vocabulary of the statements\<close>

text \<open>The last position at which a value stands in a list: the case that wrote the
  reverse index last.\<close>

fun last_pos :: "'a \<Rightarrow> 'a list \<Rightarrow> nat option" where
  "last_pos x [] = None"
| "last_pos x (y # ys) =
     (case last_pos x ys of
        Some i \<Rightarrow> Some (Suc i)
      | None \<Rightarrow> if x = y then Some 0 else None)"

text \<open>The enumerations of \<^verbatim>\<open>tests/main.test.ts\<close>. A numeric TypeScript enum compiles to
  an object that also maps each number back to its name; JavaScript enumerates those
  integer keys first.\<close>

definition RoleEnum :: enum_like where
  "RoleEnum = object
     [(''1'', PStr ''ADMIN''), (''2'', PStr ''USER''), (''3'', PStr ''GUEST''),
      (''ADMIN'', PNum (Finite 1)), (''USER'', PNum (Finite 2)), (''GUEST'', PNum (Finite 3))]"

definition StatusEnum :: enum_like where
  "StatusEnum = object
     [(''PENDING'', PStr ''pending''), (''ACTIVE'', PStr ''active''),
      (''ARCHIVED'', PStr ''archived'')]"

text \<open>Two case-names with one backing value: \<^verbatim>\<open>{ A: 1, B: 1 }\<close>.\<close>

definition SharedEnum :: enum_like where
  "SharedEnum = object [(''A'', PNum (Finite 1)), (''B'', PNum (Finite 1))]"

text \<open>The traits of the test suite, as the names of the methods they declare. A method
  body is named by a string here.\<close>

definition Comparable :: "string trait" where
  "Comparable = [''is'' \<mapsto> Trait_method ''Comparable.is'',
                 ''isNot'' \<mapsto> Trait_method ''Comparable.isNot'']"

definition Stringable :: "string trait" where
  "Stringable = [''toString'' \<mapsto> Trait_method ''Stringable.toString'',
                 ''slug'' \<mapsto> Trait_method ''Stringable.slug'']"

section \<open>The constructor's loop\<close>

lemmas step_defs = new_def cases_push_def map_set_def defineProperty_def


lemma ctor_Nil: "BackedEnum_constructor C e [] s = Inr s' \<longleftrightarrow> s' = s"
  by auto

lemma ctor_Cons:
  assumes "BackedEnum_constructor C e (k # ks) (this, h) = Inr s"
  obtains xs m where "this ''cases'' = Some (Array xs)" and "this ''map'' = Some (RevMap m)"
    and "BackedEnum_constructor C e ks
           (this(''cases'' \<mapsto> Array (xs @ [length h]),
                 ''map'' \<mapsto> RevMap (m(property e k \<mapsto> length h)),
                 k \<mapsto> Ref (length h)),
            h @ [new_case C k (property e k)]) = Inr s"
  using assms
  by (auto simp: step_defs Let_def split: sum.splits option.splits slot.splits)

lemma ctor_heap:
  "BackedEnum_constructor C e ks (this, h) = Inr (this', h') \<Longrightarrow>
   h' = h @ map (\<lambda>k. new_case C k (property e k)) ks"
proof (induction ks arbitrary: this h)
  case Nil
  then show ?case by simp
next
  case (Cons k ks)
  from Cons.prems show ?case
    by (rule ctor_Cons) (auto dest: Cons.IH)
qed

lemma upt_shift: "n # [Suc n ..< Suc (n + l)] = [n ..< Suc (n + l)]"
  by (simp add: upt_conv_Cons del: upt_Suc)

lemma ctor_cases:
  "BackedEnum_constructor C e ks (this, h) = Inr (this', h') \<Longrightarrow>
   ''cases'' \<notin> set ks \<Longrightarrow> this ''cases'' = Some (Array xs) \<Longrightarrow>
   this' ''cases'' = Some (Array (xs @ [length h ..< length h + length ks]))"
proof (induction ks arbitrary: this h xs)
  case Nil
  then show ?case by simp
next
  case (Cons k ks)
  from Cons.prems(1) show ?case
  proof (rule ctor_Cons)
    fix ys m
    assume ys: "this ''cases'' = Some (Array ys)"
      and rest: "BackedEnum_constructor C e ks
           (this(''cases'' \<mapsto> Array (ys @ [length h]),
                 ''map'' \<mapsto> RevMap (m(property e k \<mapsto> length h)),
                 k \<mapsto> Ref (length h)),
            h @ [new_case C k (property e k)]) = Inr (this', h')"
    from ys Cons.prems(3) have "ys = xs" by simp
    with Cons.prems(2) Cons.IH [OF rest, of "xs @ [length h]"]
    show ?thesis
      by (simp add: upt_shift del: upt_Suc)
  qed
qed

lemma ctor_map:
  "BackedEnum_constructor C e ks (this, h) = Inr (this', h') \<Longrightarrow>
   ''map'' \<notin> set ks \<Longrightarrow> this ''map'' = Some (RevMap m) \<Longrightarrow>
   \<exists>m'. this' ''map'' = Some (RevMap m') \<and>
     (\<forall>p. m' p = (case last_pos p (map (property e) ks) of
                    None \<Rightarrow> m p | Some i \<Rightarrow> Some (length h + i)))"
proof (induction ks arbitrary: this h m)
  case Nil
  then show ?case by simp
next
  case (Cons k ks)
  from Cons.prems(1) show ?case
  proof (rule ctor_Cons)
    fix ys m0
    assume m0: "this ''map'' = Some (RevMap m0)"
      and rest: "BackedEnum_constructor C e ks
           (this(''cases'' \<mapsto> Array (ys @ [length h]),
                 ''map'' \<mapsto> RevMap (m0(property e k \<mapsto> length h)),
                 k \<mapsto> Ref (length h)),
            h @ [new_case C k (property e k)]) = Inr (this', h')"
    from m0 Cons.prems(3) have m: "m0 = m" by simp
    from Cons.prems(2) have k: "k \<noteq> ''map''" and ks: "''map'' \<notin> set ks" by auto
    from k have "(this(''cases'' \<mapsto> Array (ys @ [length h]),
                 ''map'' \<mapsto> RevMap (m0(property e k \<mapsto> length h)),
                 k \<mapsto> Ref (length h))) ''map''
        = Some (RevMap (m0(property e k \<mapsto> length h)))"
      by simp
    from Cons.IH [OF rest ks this] obtain m' where
      m': "this' ''map'' = Some (RevMap m')" and
      look: "\<And>p. m' p = (case last_pos p (map (property e) ks) of
                    None \<Rightarrow> (m0(property e k \<mapsto> length h)) p
                  | Some i \<Rightarrow> Some (length (h @ [new_case C k (property e k)]) + i))"
      by blast
    have "m' p = (case last_pos p (map (property e) (k # ks)) of
                    None \<Rightarrow> m p | Some i \<Rightarrow> Some (length h + i))" for p
      by (simp add: look m split: option.splits)
    with m' show ?thesis by blast
  qed
qed

lemma ctor_frame:
  "BackedEnum_constructor C e ks (this, h) = Inr (this', h') \<Longrightarrow>
   k \<notin> set ks \<Longrightarrow> k \<noteq> ''cases'' \<Longrightarrow> k \<noteq> ''map'' \<Longrightarrow> this' k = this k"
proof (induction ks arbitrary: this h)
  case Nil
  then show ?case by simp
next
  case (Cons k' ks)
  from Cons.prems(1) show ?case
    by (rule ctor_Cons) (use Cons.prems(2-) in \<open>simp add: Cons.IH\<close>)
qed

lemma ctor_named:
  "BackedEnum_constructor C e ks (this, h) = Inr (this', h') \<Longrightarrow>
   distinct ks \<Longrightarrow> i < length ks \<Longrightarrow> ks ! i \<noteq> ''cases'' \<Longrightarrow> ks ! i \<noteq> ''map'' \<Longrightarrow>
   this' (ks ! i) = Some (Ref (length h + i))"
proof (induction ks arbitrary: this h i)
  case Nil
  then show ?case by simp
next
  case (Cons k ks)
  from Cons.prems(1) show ?case
  proof (rule ctor_Cons)
    fix ys m
    assume rest: "BackedEnum_constructor C e ks
           (this(''cases'' \<mapsto> Array (ys @ [length h]),
                 ''map'' \<mapsto> RevMap (m(property e k \<mapsto> length h)),
                 k \<mapsto> Ref (length h)),
            h @ [new_case C k (property e k)]) = Inr (this', h')"
    show ?thesis
    proof (cases i)
      case 0
      with Cons.prems ctor_frame [OF rest, of k] show ?thesis by simp
    next
      case (Suc j)
      with Cons.prems Cons.IH [OF rest, of j] show ?thesis by simp
    qed
  qed
qed

lemma ctor_success:
  "''cases'' \<notin> set ks \<Longrightarrow> ''map'' \<notin> set ks \<Longrightarrow>
   this ''cases'' = Some (Array xs) \<Longrightarrow> this ''map'' = Some (RevMap m) \<Longrightarrow>
   \<exists>s. BackedEnum_constructor C e ks (this, h) = Inr s"
  by (induction ks arbitrary: this h xs m) (auto simp: step_defs Let_def)

lemma ctor_entries:
  "BackedEnum_constructor C e ks (this, h) = Inr (this', h') \<Longrightarrow>
   this' ''map'' = Some (RevMap m') \<Longrightarrow> m' p = Some a \<Longrightarrow>
   (\<exists>m. this ''map'' = Some (RevMap m) \<and> m p = Some a) \<or>
   (\<exists>i<length ks. a = length h + i \<and> property e (ks ! i) = p)"
proof (induction ks arbitrary: this h)
  case Nil
  then show ?case by simp
next
  case (Cons k ks)
  from Cons.prems(1) show ?case
  proof (rule ctor_Cons)
    fix ys m
    assume m: "this ''map'' = Some (RevMap m)"
      and rest: "BackedEnum_constructor C e ks
           (this(''cases'' \<mapsto> Array (ys @ [length h]),
                 ''map'' \<mapsto> RevMap (m(property e k \<mapsto> length h)),
                 k \<mapsto> Ref (length h)),
            h @ [new_case C k (property e k)]) = Inr (this', h')"
    from Cons.IH [OF rest Cons.prems(2,3)] show ?thesis
    proof
      assume "\<exists>m1. (this(''cases'' \<mapsto> Array (ys @ [length h]),
                 ''map'' \<mapsto> RevMap (m(property e k \<mapsto> length h)),
                 k \<mapsto> Ref (length h))) ''map'' = Some (RevMap m1) \<and> m1 p = Some a"
      with m show ?thesis
        by (auto split: if_splits)
    next
      assume "\<exists>i<length ks. a = length (h @ [new_case C k (property e k)]) + i \<and>
                property e (ks ! i) = p"
      then obtain i where "i < length ks" "a = length h + Suc i" "property e (ks ! i) = p"
        by auto
      then have "Suc i < length (k # ks) \<and> a = length h + Suc i \<and> property e ((k # ks) ! Suc i) = p"
        by simp
      then show ?thesis by blast
    qed
  qed
qed


subsection \<open>The last position of a value\<close>

lemma last_pos_None: "last_pos x ys = None \<longleftrightarrow> x \<notin> set ys"
  by (induction ys) (auto split: option.splits)

lemma last_pos_Some:
  "last_pos x ys = Some i \<Longrightarrow>
   i < length ys \<and> ys ! i = x \<and> (\<forall>j. i < j \<and> j < length ys \<longrightarrow> ys ! j \<noteq> x)"
proof (induction ys arbitrary: i)
  case Nil
  then show ?case by simp
next
  case (Cons y ys)
  show ?case
  proof (cases "last_pos x ys")
    case None
    with Cons.prems have i: "i = 0" and y: "x = y"
      by (auto split: if_splits)
    from None have "x \<notin> set ys" by (simp add: last_pos_None)
    with i y show ?thesis
      by (auto simp: nth_Cons split: nat.splits)
  next
    case (Some l)
    with Cons.prems have i: "i = Suc l" by simp
    from Cons.IH [OF Some] i show ?thesis
      by (auto simp: nth_Cons split: nat.splits)
  qed
qed

lemma last_pos_eq:
  "i < length ys \<Longrightarrow> ys ! i = x \<Longrightarrow> (\<forall>j. i < j \<and> j < length ys \<longrightarrow> ys ! j \<noteq> x) \<Longrightarrow>
   last_pos x ys = Some i"
proof -
  assume i: "i < length ys" and x: "ys ! i = x"
    and later: "\<forall>j. i < j \<and> j < length ys \<longrightarrow> ys ! j \<noteq> x"
  from i x have "x \<in> set ys" by auto
  then obtain l where l: "last_pos x ys = Some l"
    by (cases "last_pos x ys") (simp_all add: last_pos_None)
  from last_pos_Some [OF l] i x later have "\<not> l < i" "\<not> i < l"
    by auto
  with l show ?thesis by simp
qed

subsection \<open>The collection that \<^verbatim>\<open>createBackedEnum\<close> returns\<close>

lemma built:
  assumes "createBackedEnum h e C = Inr (c, h')"
  shows "CaseClass c = C"
    and "BackedEnum_constructor C e (keys e)
           ([''cases'' \<mapsto> Array [], ''map'' \<mapsto> RevMap Map.empty], h) = Inr (own c, h')"
  using assms by (auto simp: createBackedEnum_def split: sum.splits)

lemma built_heap:
  "createBackedEnum h e C = Inr (c, h') \<Longrightarrow>
   h' = h @ map (\<lambda>k. new_case C k (property e k)) (keys e)"
  by (rule ctor_heap) (rule built(2))

lemma built_cases:
  "createBackedEnum h e C = Inr (c, h') \<Longrightarrow> ''cases'' \<notin> set (keys e) \<Longrightarrow>
   own c ''cases'' = Some (Array [length h ..< length h + length (keys e)])"
  using ctor_cases [OF built(2), of h e C c h' "[]"] by simp

lemma built_map:
  assumes "createBackedEnum h e C = Inr (c, h')" and "''map'' \<notin> set (keys e)"
  obtains m where "own c ''map'' = Some (RevMap m)"
    and "\<And>p. m p = map_option ((+) (length h)) (last_pos p (map (property e) (keys e)))"
proof -
  from ctor_map [OF built(2) [OF assms(1)] assms(2), of Map.empty]
  obtain m where m: "own c ''map'' = Some (RevMap m)"
    and look: "\<And>p. m p = (case last_pos p (map (property e) (keys e)) of
                        None \<Rightarrow> None | Some i \<Rightarrow> Some (length h + i))"
    by auto
  have "m p = map_option ((+) (length h)) (last_pos p (map (property e) (keys e)))" for p
    by (simp add: look split: option.splits)
  with m that show thesis by blast
qed

lemma built_frame:
  "createBackedEnum h e C = Inr (c, h') \<Longrightarrow> k \<notin> set (keys e) \<Longrightarrow>
   k \<noteq> ''cases'' \<Longrightarrow> k \<noteq> ''map'' \<Longrightarrow> own c k = None"
  using ctor_frame [OF built(2), of h e C c h' k] by simp

lemma built_named:
  "createBackedEnum h e C = Inr (c, h') \<Longrightarrow> distinct (keys e) \<Longrightarrow> i < length (keys e) \<Longrightarrow>
   keys e ! i \<noteq> ''cases'' \<Longrightarrow> keys e ! i \<noteq> ''map'' \<Longrightarrow>
   own c (keys e ! i) = Some (Ref (length h + i))"
  by (rule ctor_named) (rule built(2))

lemma builds:
  "''cases'' \<notin> set (keys e) \<Longrightarrow> ''map'' \<notin> set (keys e) \<Longrightarrow>
   \<exists>c h'. createBackedEnum h e C = Inr (c, h')"
  using ctor_success [of "keys e" "[''cases'' \<mapsto> Array [], ''map'' \<mapsto> RevMap Map.empty]"
      "[]" Map.empty C e h]
  by (auto simp: createBackedEnum_def)

lemma distinct_keys: "distinct (Object_keys e) \<Longrightarrow> distinct (keys e)"
  by (simp add: keys_def)

subsection \<open>Reading the new instances\<close>

lemma deref_new:
  "i < length ks \<Longrightarrow>
   deref (h @ map (\<lambda>k. new_case C k (property e k)) ks) (length h + i)
     = Some (new_case C (ks ! i) (property e (ks ! i)))"
  by (simp add: deref_def nth_append)

lemma built_deref:
  "createBackedEnum h e C = Inr (c, h') \<Longrightarrow> i < length (keys e) \<Longrightarrow>
   deref h' (length h + i) = Some (new_case C (keys e ! i) (property e (keys e ! i)))"
  by (drule built_heap) (simp add: deref_new)

lemma built_get_name:
  "createBackedEnum h e C = Inr (c, h') \<Longrightarrow> i < length (keys e) \<Longrightarrow>
   get_name h' (length h + i) = JString (keys e ! i)"
  by (simp add: get_name_def built_deref new_case_def)

lemma built_get_value:
  "createBackedEnum h e C = Inr (c, h') \<Longrightarrow> i < length (keys e) \<Longrightarrow>
   get_value h' (length h + i) = of_prim (property e (keys e ! i))"
  by (simp add: get_value_def built_deref new_case_def)

lemma built_instanceof:
  "createBackedEnum h e C = Inr (c, h') \<Longrightarrow> i < length (keys e) \<Longrightarrow>
   instanceof h' (JObject (length h + i)) C
     = Inr (Some \<lparr>proto = class_id C # supers C, name = keys e ! i,
                   value = of_prim (property e (keys e ! i))\<rparr>)"
  by (simp add: instanceof_def built_deref new_case_def)

subsection \<open>The branches of \<^verbatim>\<open>from\<close>\<close>

lemma instanceof_prim: "instanceof h (of_prim p) C = Inr None"
  by (cases p) (simp_all add: instanceof_def)

lemma from_prim:
  "own c ''map'' = Some (RevMap m) \<Longrightarrow> BackedEnum_from c h (of_prim p) = Returns (m p)"
  by (subst BackedEnum_from.simps) (cases p; simp add: instanceof_def map_get_def)

lemma from_instance:
  "instanceof h x (CaseClass c) = Inr (Some o') \<Longrightarrow> own c ''from'' = None \<Longrightarrow>
   BackedEnum_from c h x = BackedEnum_from c h (value o')"
  by (subst BackedEnum_from.simps) simp




subsection \<open>What a caller's \<^verbatim>\<open>collection.from(x)\<close> returns\<close>

lemma built_from:
  "createBackedEnum h e C = Inr (c, h') \<Longrightarrow> ''from'' \<notin> set (keys e) \<Longrightarrow> own c ''from'' = None"
  by (rule built_frame) simp_all

lemma built_values:
  "createBackedEnum h e C = Inr (c, h') \<Longrightarrow> ''values'' \<notin> set (keys e) \<Longrightarrow> own c ''values'' = None"
  by (rule built_frame) simp_all

lemma call_from_prim:
  assumes "createBackedEnum h e C = Inr (c, h')"
    and "''map'' \<notin> set (keys e)" and "''from'' \<notin> set (keys e)"
  shows "call_from c hh (of_prim p)
           = Returns (map_option ((+) (length h)) (last_pos p (map (property e) (keys e))))"
proof -
  from built_map [OF assms(1,2)] obtain m where
    m: "own c ''map'' = Some (RevMap m)"
    and look: "\<And>p. m p = map_option ((+) (length h)) (last_pos p (map (property e) (keys e)))"
    by blast
  from built_from [OF assms(1,3)] from_prim [OF m] look show ?thesis
    by (simp add: call_from_def)
qed

lemma call_from_instance:
  assumes "createBackedEnum h e C = Inr (c, h')" and "''from'' \<notin> set (keys e)"
    and "instanceof hh x C = Inr (Some o')"
  shows "call_from c hh x = call_from c hh (value o')"
  using built_from [OF assms(1,2)] assms(3) built(1) [OF assms(1)]
  by (simp add: call_from_def from_instance)

text \<open>Where the reverse index is in place, the build's \<^verbatim>\<open>from\<close> and the source's agree on
  every candidate that is no case instance and no \<^verbatim>\<open>Proxy\<close>.\<close>

lemma dist_from_agrees_elsewhere:
  assumes "createBackedEnum h e C = Inr (c, h')" and "''map'' \<notin> set (keys e)"
    and "instanceof hh x C = Inr None"
  shows "call_from c hh x = Some (call_dist_from c hh x)"
proof -
  from built_map [OF assms(1,2)] obtain m where m: "own c ''map'' = Some (RevMap m)"
    by blast
  have "BackedEnum_from c hh x = Some (map_get c x)"
    using assms(3) built(1) [OF assms(1)] m
    by (subst BackedEnum_from.simps) (cases x; simp add: map_get_def)
  then show ?thesis
    by (simp add: call_from_def call_dist_from_def dist_BackedEnum_from_def split: option.splits)
qed

subsection \<open>The method table of a composed case class\<close>

lemma methods_createEnumCase:
  "methods (createEnumCase n ts) = foldl (++) (methods EnumCase) ts"
  by (simp add: createEnumCase_def withTraits_def)

section \<open>Running the model on the test suite's enumerations\<close>

lemmas Number_defs = isNaN_Number_def trim_def StrWhiteSpaceChar_def StrDecimalLiteral_def
  StrUnsignedDecimalLiteral_def NonDecimalIntegerLiteral_def ExponentPart_opt_def
  SignedInteger_def DecimalDigits_def DecimalDigit_def

lemmas run_defs = createBackedEnum_def step_defs new_case_def call_on_case_def Let_def
  call_from_def call_dist_from_def call_values_def dist_BackedEnum_from_def
  BackedEnum_values_def map_get_def instanceof_def deref_def get_value_def get_name_def
  cases_at_def accessor_def BackedEnum_from.simps proxied_def

lemma reserved_not_numeric: "isNaN_Number ''cases''" "isNaN_Number ''map''"
  by (simp_all add: Number_defs)

lemma keys_RoleEnum: "keys RoleEnum = [''ADMIN'', ''USER'', ''GUEST'']"
  by (simp add: keys_def RoleEnum_def object_def Number_defs)

lemma property_RoleEnum:
  "property RoleEnum ''ADMIN'' = PNum (Finite 1)"
  "property RoleEnum ''USER'' = PNum (Finite 2)"
  "property RoleEnum ''GUEST'' = PNum (Finite 3)"
  by (simp_all add: RoleEnum_def object_def)

lemma numeric_RoleEnum:
  "\<not> isNaN_Number ''1''" "\<not> isNaN_Number ''2''" "\<not> isNaN_Number ''3''"
  by (simp_all add: Number_defs)

lemma distinct_RoleEnum: "distinct (Object_keys RoleEnum)"
  by (simp add: RoleEnum_def object_def)

lemma later_RoleEnum:
  "\<forall>j. 1 < j \<and> j < length (keys RoleEnum) \<longrightarrow>
     property RoleEnum (keys RoleEnum ! j) \<noteq> property RoleEnum (keys RoleEnum ! 1)"
  by (auto simp: keys_RoleEnum property_RoleEnum nth_Cons split: nat.splits)

lemma built_RoleEnum:
  "\<exists>c h'. createBackedEnum [] RoleEnum (EnumCase :: unit case_class) = Inr (c, h')"
  by (rule builds) (simp_all add: keys_RoleEnum)

lemma keys_StatusEnum: "keys StatusEnum = [''PENDING'', ''ACTIVE'', ''ARCHIVED'']"
  by (simp add: keys_def StatusEnum_def object_def Number_defs)

lemma property_StatusEnum:
  "property StatusEnum ''PENDING'' = PStr ''pending''"
  "property StatusEnum ''ACTIVE'' = PStr ''active''"
  "property StatusEnum ''ARCHIVED'' = PStr ''archived''"
  by (simp_all add: StatusEnum_def object_def)

lemma built_StatusEnum:
  "\<exists>c h'. createBackedEnum [] StatusEnum (EnumCase :: unit case_class) = Inr (c, h')"
  by (rule builds) (simp_all add: keys_StatusEnum)

lemma keys_SharedEnum: "keys SharedEnum = [''A'', ''B'']"
  by (simp add: keys_def SharedEnum_def object_def Number_defs)

lemma property_SharedEnum:
  "property SharedEnum ''A'' = PNum (Finite 1)" "property SharedEnum ''B'' = PNum (Finite 1)"
  by (simp_all add: SharedEnum_def object_def)

lemma distinct_SharedEnum: "distinct (Object_keys SharedEnum)"
  by (simp add: SharedEnum_def object_def)

lemma built_SharedEnum:
  "\<exists>c h'. createBackedEnum [] SharedEnum (EnumCase :: unit case_class) = Inr (c, h')"
  by (rule builds) (simp_all add: keys_SharedEnum)

section \<open>The claims\<close>

subsection \<open>C1: one object behind every access path\<close>

text \<open>
  C1, as amended. Take a definition (an object, so its keys are distinct) none of whose
  filtered case-names is \<^verbatim>\<open>cases\<close>, \<^verbatim>\<open>map\<close> or \<^verbatim>\<open>from\<close>. Then \<^verbatim>\<open>createBackedEnum\<close>
  returns a collection and, for the case-name \<open>k\<close> at position \<open>i\<close> of the filtered keys,
  the named accessor \<^verbatim>\<open>collection[k]\<close> and \<^verbatim>\<open>collection.cases[i]\<close> are one object, the
  instance named \<open>k\<close>; and \<^verbatim>\<open>collection.from(collection[k].value)\<close> is the instance at the
  last position \<open>l\<close> whose backing value is that of \<open>k\<close>, which is the same object again
  exactly when no later case-name shares the backing value of \<open>k\<close>.
\<close>

theorem access_paths_agree:
  assumes "distinct (Object_keys e)"
    and "''cases'' \<notin> set (keys e)" and "''map'' \<notin> set (keys e)" and "''from'' \<notin> set (keys e)"
    and "i < length (keys e)"
  shows "\<exists>c h' l. createBackedEnum h e C = Inr (c, h') \<and>
           accessor c (keys e ! i) = Some (length h + i) \<and>
           cases_at c i = Some (length h + i) \<and>
           get_name h' (length h + i) = JString (keys e ! i) \<and>
           call_from c h' (get_value h' (length h + i)) = Returns (Some (length h + l)) \<and>
           i \<le> l \<and> l < length (keys e) \<and>
           property e (keys e ! l) = property e (keys e ! i) \<and>
           (\<forall>j. l < j \<and> j < length (keys e) \<longrightarrow>
                property e (keys e ! j) \<noteq> property e (keys e ! i)) \<and>
           ((\<forall>j. i < j \<and> j < length (keys e) \<longrightarrow>
                property e (keys e ! j) \<noteq> property e (keys e ! i)) \<longrightarrow> l = i)"
proof -
  let ?v = "property e (keys e ! i)"
  let ?vs = "map (property e) (keys e)"
  from builds [OF assms(2,3)] obtain c h' where b: "createBackedEnum h e C = Inr (c, h')"
    by blast
  from assms(5) have "keys e ! i \<in> set (keys e)" by simp
  with assms(2,3) have "keys e ! i \<noteq> ''cases''" "keys e ! i \<noteq> ''map''" by auto
  with built_named [OF b distinct_keys [OF assms(1)] assms(5)]
  have named: "accessor c (keys e ! i) = Some (length h + i)"
    by (simp add: accessor_def)
  have at: "cases_at c i = Some (length h + i)"
    using built_cases [OF b assms(2)] assms(5) by (simp add: cases_at_def)
  from assms(5) have "?v \<in> set ?vs" by simp
  then obtain l where l: "last_pos ?v ?vs = Some l"
    by (cases "last_pos ?v ?vs") (simp_all add: last_pos_None)
  note p = last_pos_Some [OF l]
  from p have len: "l < length (keys e)" by simp
  with p have same: "property e (keys e ! l) = ?v" by simp
  from p have later: "\<forall>j. l < j \<and> j < length (keys e) \<longrightarrow> property e (keys e ! j) \<noteq> ?v"
    by simp
  have le: "i \<le> l"
  proof (rule ccontr)
    assume "\<not> i \<le> l"
    then have "l < i" by simp
    with later assms(5) show False by blast
  qed
  from l have call: "call_from c h' (get_value h' (length h + i)) = Returns (Some (length h + l))"
    by (simp add: built_get_value [OF b assms(5)] call_from_prim [OF b assms(3,4)])
  have "l = i"
    if "\<forall>j. i < j \<and> j < length (keys e) \<longrightarrow> property e (keys e ! j) \<noteq> ?v"
  proof (rule ccontr)
    assume "l \<noteq> i"
    with le have "i < l" by simp
    with that len same show False by blast
  qed
  with b named at built_get_name [OF b assms(5)] call le len same later show ?thesis
    by blast
qed

text \<open>The theorem at \<^verbatim>\<open>RoleEnum\<close> and its case \<^verbatim>\<open>USER\<close>: the accessor, \<^verbatim>\<open>cases[1]\<close> and
  \<^verbatim>\<open>from(2)\<close> are the object at address 1.\<close>

theorem access_paths_agree_witness:
  "\<exists>c h'. createBackedEnum [] RoleEnum (EnumCase :: unit case_class) = Inr (c, h') \<and>
     accessor c ''USER'' = Some 1 \<and> cases_at c 1 = Some 1 \<and>
     get_name h' 1 = JString ''USER'' \<and> get_value h' 1 = JNumber (Finite 2) \<and>
     call_from c h' (JNumber (Finite 2)) = Returns (Some 1)"
proof -
  from access_paths_agree [OF distinct_RoleEnum, of 1 "[]" "EnumCase :: unit case_class"]
  obtain c h' l where b: "createBackedEnum [] RoleEnum (EnumCase :: unit case_class) = Inr (c, h')"
    and "accessor c (keys RoleEnum ! 1) = Some 1" and "cases_at c 1 = Some 1"
    and "get_name h' 1 = JString (keys RoleEnum ! 1)"
    and "call_from c h' (get_value h' 1) = Returns (Some l)"
    and "(\<forall>j. 1 < j \<and> j < length (keys RoleEnum) \<longrightarrow>
           property RoleEnum (keys RoleEnum ! j) \<noteq> property RoleEnum (keys RoleEnum ! 1)) \<longrightarrow>
         l = 1"
    by (auto simp: keys_RoleEnum)
  with later_RoleEnum built_get_value [OF b, of 1] show ?thesis
    by (auto simp: keys_RoleEnum property_RoleEnum)
qed

text \<open>C1 as stated fails at \<^verbatim>\<open>{ A: 1, B: 1 }\<close> and \<open>k = A\<close>: \<^verbatim>\<open>collection.A\<close> and
  \<^verbatim>\<open>collection.cases[0]\<close> are the object at address 0, whose value is 1, and
  \<^verbatim>\<open>collection.from(1)\<close> is the object at address 1, the instance of \<^verbatim>\<open>B\<close>, which
  wrote the reverse index last.\<close>

theorem access_paths_differ_counterexample:
  "\<exists>c h'. createBackedEnum [] SharedEnum (EnumCase :: unit case_class) = Inr (c, h') \<and>
     accessor c ''A'' = Some 0 \<and> cases_at c 0 = Some 0 \<and>
     get_value h' 0 = JNumber (Finite 1) \<and>
     call_from c h' (get_value h' 0) = Returns (Some 1)"
  by (simp add: keys_SharedEnum property_SharedEnum run_defs EnumCase_def)

subsection \<open>C2: \<^verbatim>\<open>from\<close> of a case instance\<close>

text \<open>
  C2, as amended. In a collection built from a definition none of whose filtered
  case-names is \<^verbatim>\<open>cases\<close>, \<^verbatim>\<open>map\<close> or \<^verbatim>\<open>from\<close>, take the case instance at position \<open>i\<close>
  of \<^verbatim>\<open>cases\<close>, and let no later case share its backing value. Then \<^verbatim>\<open>from\<close> finds that
  its argument is an instance of the case type, answers what it answers for the instance's
  \<^verbatim>\<open>value\<close>, and that answer is the instance itself.
\<close>

theorem from_case_instance:
  assumes "createBackedEnum h e C = Inr (c, h')"
    and "''cases'' \<notin> set (keys e)" and "''map'' \<notin> set (keys e)" and "''from'' \<notin> set (keys e)"
    and "i < length (keys e)"
    and "\<forall>j. i < j \<and> j < length (keys e) \<longrightarrow> property e (keys e ! j) \<noteq> property e (keys e ! i)"
  shows "cases_at c i = Some (length h + i) \<and>
         (\<exists>obj. instanceof h' (JObject (length h + i)) C = Inr (Some obj)) \<and>
         call_from c h' (JObject (length h + i)) = call_from c h' (get_value h' (length h + i)) \<and>
         call_from c h' (JObject (length h + i)) = Returns (Some (length h + i))"
proof -
  let ?v = "property e (keys e ! i)"
  have at: "cases_at c i = Some (length h + i)"
    using built_cases [OF assms(1,2)] assms(5) by (simp add: cases_at_def)
  note inst = built_instanceof [OF assms(1,5)]
  have "call_from c h' (JObject (length h + i)) = call_from c h' (of_prim ?v)"
    using call_from_instance [OF assms(1,4) inst] by simp
  moreover have "last_pos ?v (map (property e) (keys e)) = Some i"
    using assms(5,6) by (intro last_pos_eq) simp_all
  then have "call_from c h' (of_prim ?v) = Returns (Some (length h + i))"
    by (simp add: call_from_prim [OF assms(1,3,4)])
  ultimately show ?thesis
    using at inst built_get_value [OF assms(1,5)] by simp
qed

text \<open>The theorem at \<^verbatim>\<open>RoleEnum\<close>: \<^verbatim>\<open>Role.from(Role.USER)\<close> is \<^verbatim>\<open>Role.USER\<close>.\<close>

theorem from_case_instance_witness:
  "\<exists>c h'. createBackedEnum [] RoleEnum (EnumCase :: unit case_class) = Inr (c, h') \<and>
     cases_at c 1 = Some 1 \<and> call_from c h' (JObject 1) = call_from c h' (JNumber (Finite 2)) \<and>
     call_from c h' (JObject 1) = Returns (Some 1)"
proof -
  obtain c h' where b: "createBackedEnum [] RoleEnum (EnumCase :: unit case_class) = Inr (c, h')"
    using built_RoleEnum by blast
  from from_case_instance [OF b _ _ _ _ later_RoleEnum] b built_get_value [OF b, of 1]
  show ?thesis
    by (auto simp: keys_RoleEnum property_RoleEnum)
qed

text \<open>C2 as stated fails at \<^verbatim>\<open>{ map: 'm' }\<close>, a definition with one case and so with no
  shared value: \<^verbatim>\<open>Object.defineProperty(this, 'map', ...)\<close> has replaced the reverse index
  by the case instance, and \<^verbatim>\<open>collection.from(collection.cases[0])\<close> throws at
  \<^verbatim>\<open>this.map.get\<close>.\<close>

theorem from_case_instance_counterexample:
  "\<exists>c h'. createBackedEnum [] (object [(''map'', PStr ''m'')]) (EnumCase :: unit case_class)
             = Inr (c, h') \<and>
     cases_at c 0 = Some 0 \<and> call_from c h' (JObject 0) = Throws TypeError"
  by (simp add: keys_def object_def Number_defs run_defs EnumCase_def)

subsection \<open>C3: inputs of another kind\<close>




subsection \<open>C4: exact match on strings and numbers\<close>

text \<open>
  C4, as amended. In a collection built from a definition none of whose filtered
  case-names is \<^verbatim>\<open>map\<close> or \<^verbatim>\<open>from\<close>, \<^verbatim>\<open>from\<close> of a string or number returns; it returns
  \<^verbatim>\<open>undefined\<close> exactly when no case has that backing value, and otherwise a case
  instance whose \<^verbatim>\<open>value\<close> is the candidate itself, the last one in definition order.
  Equality is that of the values: a string never equals a number, and strings are equal
  only letter for letter.
\<close>

theorem from_exact_match:
  assumes "createBackedEnum h e C = Inr (c, h')"
    and "''map'' \<notin> set (keys e)" and "''from'' \<notin> set (keys e)"
  shows "\<exists>r. call_from c hh (of_prim p) = Returns r \<and>
           (r = None \<longleftrightarrow> p \<notin> property e ` set (keys e)) \<and>
           (\<forall>a. r = Some a \<longrightarrow>
              get_value h' a = of_prim p \<and>
              (\<exists>i<length (keys e). a = length h + i \<and> property e (keys e ! i) = p \<and>
                 (\<forall>j. i < j \<and> j < length (keys e) \<longrightarrow> property e (keys e ! j) \<noteq> p)))"
proof (cases "last_pos p (map (property e) (keys e))")
  case None
  then have "call_from c hh (of_prim p) = Returns None"
    by (simp add: call_from_prim [OF assms])
  moreover from None have "p \<notin> property e ` set (keys e)"
    by (simp add: last_pos_None)
  ultimately show ?thesis by simp
next
  case (Some i)
  then have r: "call_from c hh (of_prim p) = Returns (Some (length h + i))"
    by (simp add: call_from_prim [OF assms])
  note l = last_pos_Some [OF Some]
  from l have len: "i < length (keys e)" by simp
  with l have i: "i < length (keys e)" "property e (keys e ! i) = p" by simp_all
  from l have later: "\<forall>j. i < j \<and> j < length (keys e) \<longrightarrow> property e (keys e ! j) \<noteq> p"
    by simp
  from i have "p \<in> property e ` set (keys e)"
    by (metis imageI nth_mem)
  moreover from i have "get_value h' (length h + i) = of_prim p"
    by (simp add: built_get_value [OF assms(1)])
  ultimately show ?thesis
    using r i later by auto
qed

text \<open>The theorem at \<^verbatim>\<open>StatusEnum\<close> and \<^verbatim>\<open>RoleEnum\<close>: \<^verbatim>\<open>from('ACTIVE')\<close> misses the value
  \<^verbatim>\<open>'active'\<close>, which \<^verbatim>\<open>from('active')\<close> finds; \<^verbatim>\<open>from('1')\<close> misses the value \<open>1\<close>, which
  \<^verbatim>\<open>from(1)\<close> finds; \<^verbatim>\<open>from(999)\<close> is \<^verbatim>\<open>undefined\<close>.\<close>

theorem from_exact_match_witness:
  "(\<exists>c h'. createBackedEnum [] StatusEnum (EnumCase :: unit case_class) = Inr (c, h') \<and>
      call_from c h' (JString ''ACTIVE'') = Returns None \<and>
      call_from c h' (JString ''active'') = Returns (Some 1) \<and>
      get_value h' 1 = JString ''active'') \<and>
   (\<exists>c h'. createBackedEnum [] RoleEnum (EnumCase :: unit case_class) = Inr (c, h') \<and>
      call_from c h' (JString ''1'') = Returns None \<and>
      call_from c h' (JNumber (Finite 1)) = Returns (Some 0) \<and>
      call_from c h' (JNumber (Finite 999)) = Returns None)"
proof -
  obtain c h' where b: "createBackedEnum [] StatusEnum (EnumCase :: unit case_class) = Inr (c, h')"
    using built_StatusEnum by blast
  obtain d g' where d: "createBackedEnum [] RoleEnum (EnumCase :: unit case_class) = Inr (d, g')"
    using built_RoleEnum by blast
  have "call_from c h' (JString ''ACTIVE'') = Returns None"
    using from_exact_match [OF b, of h' "PStr ''ACTIVE''"]
    by (auto simp: keys_StatusEnum property_StatusEnum)
  moreover have "call_from c h' (JString ''active'') = Returns (Some 1) \<and>
      get_value h' 1 = JString ''active''"
    using from_exact_match [OF b, of h' "PStr ''active''"]
    by (auto simp: keys_StatusEnum property_StatusEnum less_Suc_eq)
  moreover have "call_from d g' (JString ''1'') = Returns None"
    using from_exact_match [OF d, of g' "PStr ''1''"]
    by (auto simp: keys_RoleEnum property_RoleEnum)
  moreover have "call_from d g' (JNumber (Finite 1)) = Returns (Some 0)"
    using from_exact_match [OF d, of g' "PNum (Finite 1)"]
    by (auto simp: keys_RoleEnum property_RoleEnum less_Suc_eq)
  moreover have "call_from d g' (JNumber (Finite 999)) = Returns None"
    using from_exact_match [OF d, of g' "PNum (Finite 999)"]
    by (auto simp: keys_RoleEnum property_RoleEnum)
  ultimately show ?thesis
    using b d by blast
qed

text \<open>C4 as stated fails at \<^verbatim>\<open>{ map: 1 }\<close>: the case instance has the backing value \<open>1\<close>,
  and both \<^verbatim>\<open>from(1)\<close> and \<^verbatim>\<open>from('x')\<close> throw at \<^verbatim>\<open>this.map.get\<close> instead of returning
  the instance and \<^verbatim>\<open>undefined\<close>.\<close>

theorem from_exact_match_counterexample:
  "\<exists>c h'. createBackedEnum [] (object [(''map'', PNum (Finite 1))]) (EnumCase :: unit case_class)
             = Inr (c, h') \<and>
     get_value h' 0 = JNumber (Finite 1) \<and>
     call_from c h' (JNumber (Finite 1)) = Throws TypeError \<and>
     call_from c h' (JString ''x'') = Throws TypeError"
  by (simp add: keys_def object_def Number_defs run_defs EnumCase_def)

subsection \<open>C5: the order and number of \<^verbatim>\<open>cases\<close>\<close>

text \<open>
  C5, as amended. For every definition none of whose filtered case-names is \<^verbatim>\<open>cases\<close>,
  the collection that \<^verbatim>\<open>createBackedEnum\<close> returns has in \<^verbatim>\<open>cases\<close> one case instance
  per filtered key, all of them different objects, and their names, read in the order of
  \<^verbatim>\<open>cases\<close>, are the filtered keys in the order of \<^verbatim>\<open>Object.keys\<close>: no order of values
  and no alphabetical order enters.
\<close>

theorem cases_follow_keys:
  assumes "createBackedEnum h e C = Inr (c, h')" and "''cases'' \<notin> set (keys e)"
  shows "\<exists>xs. own c ''cases'' = Some (Array xs) \<and> length xs = length (keys e) \<and>
           distinct xs \<and> map (get_name h') xs = map JString (keys e)"
proof -
  let ?xs = "[length h ..< length h + length (keys e)]"
  have "map (get_name h') ?xs = map JString (keys e)"
    by (rule nth_equalityI) (simp_all add: built_get_name [OF assms(1)])
  with built_cases [OF assms] show ?thesis by simp
qed

text \<open>The theorem at \<^verbatim>\<open>StatusEnum\<close>: three cases, named \<^verbatim>\<open>PENDING\<close>, \<^verbatim>\<open>ACTIVE\<close>,
  \<^verbatim>\<open>ARCHIVED\<close> in the order written, which is neither the alphabetical order of the
  names nor that of the values.\<close>

theorem cases_follow_keys_witness:
  "\<exists>c h' xs. createBackedEnum [] StatusEnum (EnumCase :: unit case_class) = Inr (c, h') \<and>
     own c ''cases'' = Some (Array xs) \<and> length xs = 3 \<and> distinct xs \<and>
     map (get_name h') xs = [JString ''PENDING'', JString ''ACTIVE'', JString ''ARCHIVED'']"
proof -
  obtain c h' where b: "createBackedEnum [] StatusEnum (EnumCase :: unit case_class) = Inr (c, h')"
    using built_StatusEnum by blast
  from cases_follow_keys [OF b] b show ?thesis
    by (auto simp: keys_StatusEnum eval_nat_numeral)
qed

text \<open>C5 as stated fails at the definition \<^verbatim>\<open>{ cases: 1 }\<close>: the key passes the filter, the
  construction returns, and \<^verbatim>\<open>Object.defineProperty(this, 'cases', ...)\<close> has replaced
  the array by the case instance, so \<^verbatim>\<open>collection.cases\<close> is no sequence and
  \<^verbatim>\<open>collection.cases[0]\<close> is \<^verbatim>\<open>undefined\<close>.\<close>

theorem cases_overwritten_counterexample:
  "\<exists>c h'. createBackedEnum [] (object [(''cases'', PNum (Finite 1))]) (EnumCase :: unit case_class)
             = Inr (c, h') \<and>
     keys (object [(''cases'', PNum (Finite 1))]) = [''cases''] \<and>
     own c ''cases'' = Some (Ref 0) \<and> cases_at c 0 = None"
  by (simp add: keys_def object_def Number_defs run_defs EnumCase_def)

subsection \<open>C6: \<^verbatim>\<open>values()\<close>\<close>

text \<open>
  C6, as amended. In a collection built from a definition none of whose filtered
  case-names is \<^verbatim>\<open>cases\<close> or \<^verbatim>\<open>values\<close>, \<^verbatim>\<open>values()\<close> returns the \<^verbatim>\<open>value\<close> of each
  element of \<^verbatim>\<open>cases\<close>, in the order of \<^verbatim>\<open>cases\<close>; that list is the list of the backing
  values of the filtered keys, one entry per key, so a value that two cases share stands
  in it twice.
\<close>

theorem values_projection:
  assumes "createBackedEnum h e C = Inr (c, h')"
    and "''cases'' \<notin> set (keys e)" and "''values'' \<notin> set (keys e)"
  shows "\<exists>xs. own c ''cases'' = Some (Array xs) \<and>
           call_values c h' = Inr (map (get_value h') xs) \<and>
           map (get_value h') xs = map (\<lambda>k. of_prim (property e k)) (keys e)"
proof -
  let ?xs = "[length h ..< length h + length (keys e)]"
  have "map (get_value h') ?xs = map (\<lambda>k. of_prim (property e k)) (keys e)"
    by (rule nth_equalityI) (simp_all add: built_get_value [OF assms(1)])
  with built_cases [OF assms(1,2)] built_values [OF assms(1,3)] show ?thesis
    by (simp add: call_values_def BackedEnum_values_def)
qed

text \<open>The theorem at \<^verbatim>\<open>{ A: 1, B: 1 }\<close>: \<^verbatim>\<open>values()\<close> is \<^verbatim>\<open>[1, 1]\<close>.\<close>

theorem values_projection_witness:
  "\<exists>c h' xs. createBackedEnum [] SharedEnum (EnumCase :: unit case_class) = Inr (c, h') \<and>
     own c ''cases'' = Some (Array xs) \<and>
     call_values c h' = Inr (map (get_value h') xs) \<and>
     call_values c h' = Inr [JNumber (Finite 1), JNumber (Finite 1)]"
proof -
  obtain c h' where b: "createBackedEnum [] SharedEnum (EnumCase :: unit case_class) = Inr (c, h')"
    using built_SharedEnum by blast
  from values_projection [OF b] b show ?thesis
    by (auto simp: keys_SharedEnum property_SharedEnum)
qed

text \<open>C6 as stated fails at \<^verbatim>\<open>{ values: 1 }\<close>: \<^verbatim>\<open>cases\<close> holds the one instance, whose
  value is \<open>1\<close>, and \<^verbatim>\<open>collection.values\<close> is that instance, not the method, so
  \<^verbatim>\<open>collection.values()\<close> throws a \<^verbatim>\<open>TypeError\<close>.\<close>

theorem values_projection_counterexample:
  "\<exists>c h'. createBackedEnum [] (object [(''values'', PNum (Finite 1))]) (EnumCase :: unit case_class)
             = Inr (c, h') \<and>
     own c ''cases'' = Some (Array [0]) \<and> map (get_value h') [0] = [JNumber (Finite 1)] \<and>
     call_values c h' = Inl TypeError"
  by (simp add: keys_def object_def Number_defs run_defs EnumCase_def)

subsection \<open>C7: two case-names with one backing value\<close>

text \<open>
  C7, as amended. Take a definition (an object, so its keys are distinct) none of whose
  filtered case-names is \<^verbatim>\<open>cases\<close> or \<^verbatim>\<open>map\<close>, and two of its case-names, at positions
  \<open>i < j\<close> of the filtered keys, that share a backing value which no case after \<open>j\<close> has.
  Then the construction returns a collection; its reverse index maps the shared value to
  the instance of the later case-name; each of the two named accessors gives the instance
  of its own case-name; and both instances stand in \<^verbatim>\<open>cases\<close>, at \<open>i\<close> and at \<open>j\<close>.
\<close>

theorem shared_value_last_wins:
  assumes "distinct (Object_keys e)"
    and "''cases'' \<notin> set (keys e)" and "''map'' \<notin> set (keys e)"
    and "i < j" and "j < length (keys e)"
    and "property e (keys e ! i) = property e (keys e ! j)"
    and "\<forall>l. j < l \<and> l < length (keys e) \<longrightarrow> property e (keys e ! l) \<noteq> property e (keys e ! j)"
  shows "\<exists>c h' m. createBackedEnum h e C = Inr (c, h') \<and>
           own c ''map'' = Some (RevMap m) \<and>
           m (property e (keys e ! j)) = Some (length h + j) \<and>
           accessor c (keys e ! i) = Some (length h + i) \<and>
           accessor c (keys e ! j) = Some (length h + j) \<and>
           cases_at c i = Some (length h + i) \<and>
           cases_at c j = Some (length h + j)"
proof -
  from builds [OF assms(2,3)] obtain c h' where b: "createBackedEnum h e C = Inr (c, h')"
    by blast
  from built_map [OF b assms(3)] obtain m where
    m: "own c ''map'' = Some (RevMap m)"
    and look: "\<And>p. m p = map_option ((+) (length h)) (last_pos p (map (property e) (keys e)))"
    by blast
  have "last_pos (property e (keys e ! j)) (map (property e) (keys e)) = Some j"
    using assms(5,7) by (intro last_pos_eq) simp_all
  then have rev: "m (property e (keys e ! j)) = Some (length h + j)"
    by (simp add: look)
  from assms(4,5) have i: "i < length (keys e)" by simp
  have named: "own c (keys e ! l) = Some (Ref (length h + l))" if "l < length (keys e)" for l
  proof -
    from that have "keys e ! l \<in> set (keys e)" by simp
    with assms(2,3) have "keys e ! l \<noteq> ''cases''" "keys e ! l \<noteq> ''map''" by auto
    with built_named [OF b distinct_keys [OF assms(1)] that] show ?thesis by simp
  qed
  have at: "cases_at c l = Some (length h + l)" if "l < length (keys e)" for l
    using built_cases [OF b assms(2)] that by (simp add: cases_at_def)
  from b m rev named [OF i] named [OF assms(5)] at [OF i] at [OF assms(5)]
  show ?thesis
    by (simp add: accessor_def)
qed

text \<open>The theorem at \<^verbatim>\<open>{ A: 1, B: 1 }\<close>: the reverse index maps \<open>1\<close> to the instance of
  \<^verbatim>\<open>B\<close>, at address 1; \<^verbatim>\<open>collection.A\<close> is the object at address 0.\<close>

theorem shared_value_last_wins_witness:
  "\<exists>c h' m. createBackedEnum [] SharedEnum (EnumCase :: unit case_class) = Inr (c, h') \<and>
     property SharedEnum ''A'' = property SharedEnum ''B'' \<and>
     own c ''map'' = Some (RevMap m) \<and> m (PNum (Finite 1)) = Some 1 \<and>
     accessor c ''A'' = Some 0 \<and> accessor c ''B'' = Some 1 \<and>
     cases_at c 0 = Some 0 \<and> cases_at c 1 = Some 1"
proof -
  from shared_value_last_wins [OF distinct_SharedEnum, of 0 1 "[]" "EnumCase :: unit case_class"]
  show ?thesis
    by (simp add: keys_SharedEnum property_SharedEnum)
qed

text \<open>C7 as stated fails at \<^verbatim>\<open>{ cases: 1, B: 1 }\<close>, two case-names with one backing value:
  the first pass of the loop replaces the array \<^verbatim>\<open>cases\<close> by the instance of the case
  \<^verbatim>\<open>cases\<close>, and the second pass throws a \<^verbatim>\<open>TypeError\<close> at \<^verbatim>\<open>this.cases.push\<close>, so the
  construction fails.\<close>

theorem shared_value_counterexample:
  "property (object [(''cases'', PNum (Finite 1)), (''B'', PNum (Finite 1))]) ''cases''
     = property (object [(''cases'', PNum (Finite 1)), (''B'', PNum (Finite 1))]) ''B'' \<and>
   createBackedEnum [] (object [(''cases'', PNum (Finite 1)), (''B'', PNum (Finite 1))])
     (EnumCase :: unit case_class) = Inl TypeError"
  by (simp add: keys_def object_def Number_defs run_defs EnumCase_def)

subsection \<open>C8: the keys that parse as numbers\<close>

text \<open>
  C8, as amended. Take a definition (an object, so its keys are distinct) none of whose
  filtered case-names is \<^verbatim>\<open>cases\<close> or \<^verbatim>\<open>map\<close>. Then the construction returns a
  collection, and it has built a case for exactly the keys whose coercion to a number is
  \<open>NaN\<close>: the objects it has created are the case instances of those keys, one each, in
  the order of \<^verbatim>\<open>Object.keys\<close>, and they fill \<^verbatim>\<open>cases\<close> in that order; each such key has
  its named accessor, which is its instance, and the reverse index has an entry for its
  backing value, an instance with that value. A key that parses as a number has no
  property on the collection, and every entry of the reverse index is the instance of a
  key that does not parse as a number, filed under that instance's own value.
\<close>

theorem numeric_keys_excluded:
  assumes "distinct (Object_keys e)"
    and "''cases'' \<notin> set (keys e)" and "''map'' \<notin> set (keys e)"
  shows "\<exists>c h' m. createBackedEnum h e C = Inr (c, h') \<and>
           h' = h @ map (\<lambda>k. new_case C k (property e k))
                      (filter (\<lambda>key. isNaN_Number key) (Object_keys e)) \<and>
           own c ''cases'' = Some (Array [length h ..< length h']) \<and>
           own c ''map'' = Some (RevMap m) \<and>
           (\<forall>k \<in> set (Object_keys e). isNaN_Number k \<longrightarrow>
              (\<exists>i a. cases_at c i = Some (length h + i) \<and>
                 accessor c k = Some (length h + i) \<and>
                 get_name h' (length h + i) = JString k \<and>
                 get_value h' (length h + i) = of_prim (property e k) \<and>
                 m (property e k) = Some a \<and> get_value h' a = of_prim (property e k))) \<and>
           (\<forall>k. \<not> isNaN_Number k \<longrightarrow> own c k = None) \<and>
           (\<forall>p a. m p = Some a \<longrightarrow>
              (\<exists>key \<in> set (Object_keys e). isNaN_Number key \<and> get_name h' a = JString key \<and>
                 get_value h' a = of_prim p))"
proof -
  let ?n = "length h"
  let ?vs = "map (property e) (keys e)"
  from builds [OF assms(2,3)] obtain c h' where b: "createBackedEnum h e C = Inr (c, h')"
    by blast
  from built_map [OF b assms(3)] obtain m where
    m: "own c ''map'' = Some (RevMap m)"
    and look: "\<And>p. m p = map_option ((+) ?n) (last_pos p ?vs)"
    by blast
  have heap: "h' = h @ map (\<lambda>k. new_case C k (property e k))
                    (filter (\<lambda>key. isNaN_Number key) (Object_keys e))"
    using built_heap [OF b] by (simp add: keys_def)
  then have len: "length h' = ?n + length (keys e)"
    by (simp add: keys_def)
  have arr: "own c ''cases'' = Some (Array [?n ..< length h'])"
    using built_cases [OF b assms(2)] len by simp
  have entry: "\<exists>i<length (keys e). a = ?n + i \<and> property e (keys e ! i) = p" if "m p = Some a" for p a
  proof -
    from that look [of p] obtain l where l: "last_pos p ?vs = Some l" and a: "a = ?n + l"
      by auto
    note s = last_pos_Some [OF l]
    from s have "l < length (keys e)" by simp
    with s a show ?thesis by auto
  qed
  have pos: "\<exists>i a. cases_at c i = Some (?n + i) \<and> accessor c k = Some (?n + i) \<and>
                 get_name h' (?n + i) = JString k \<and>
                 get_value h' (?n + i) = of_prim (property e k) \<and>
                 m (property e k) = Some a \<and> get_value h' a = of_prim (property e k)"
    if "k \<in> set (Object_keys e)" and "isNaN_Number k" for k
  proof -
    from that have "k \<in> set (keys e)" by (simp add: keys_def)
    then obtain i where i: "i < length (keys e)" and k: "keys e ! i = k"
      by (auto simp: in_set_conv_nth)
    from \<open>k \<in> set (keys e)\<close> assms(2,3) k have "keys e ! i \<noteq> ''cases''" "keys e ! i \<noteq> ''map''"
      by auto
    with built_named [OF b distinct_keys [OF assms(1)] i] k
    have acc: "accessor c k = Some (?n + i)"
      by (simp add: accessor_def)
    have at: "cases_at c i = Some (?n + i)"
      using built_cases [OF b assms(2)] i by (simp add: cases_at_def)
    from i k have "property e k \<in> set ?vs" by auto
    then obtain l where l: "last_pos (property e k) ?vs = Some l"
      by (cases "last_pos (property e k) ?vs") (simp_all add: last_pos_None)
    note s = last_pos_Some [OF l]
    from s have ll: "l < length (keys e)" by simp
    with s have same: "property e (keys e ! l) = property e k" by simp
    from l have "m (property e k) = Some (?n + l)"
      by (simp add: look)
    moreover from same have "get_value h' (?n + l) = of_prim (property e k)"
      by (simp add: built_get_value [OF b ll])
    ultimately show ?thesis
      using acc at built_get_name [OF b i] built_get_value [OF b i] k by blast
  qed
  have num: "own c k = None" if "\<not> isNaN_Number k" for k
  proof -
    from that have "k \<notin> set (keys e)" "k \<noteq> ''cases''" "k \<noteq> ''map''"
      using reserved_not_numeric by (auto simp: keys_def)
    then show ?thesis
      by (rule built_frame [OF b])
  qed
  have only: "\<exists>key \<in> set (Object_keys e). isNaN_Number key \<and> get_name h' a = JString key \<and>
                 get_value h' a = of_prim p" if "m p = Some a" for p a
  proof -
    from entry [OF that] obtain i where i: "i < length (keys e)" "a = ?n + i"
      "property e (keys e ! i) = p"
      by blast
    then have "keys e ! i \<in> set (keys e)" by simp
    then have "keys e ! i \<in> set (Object_keys e)" "isNaN_Number (keys e ! i)"
      by (simp_all add: keys_def)
    with i built_get_name [OF b i(1)] built_get_value [OF b i(1)] show ?thesis
      by auto
  qed
  from b heap arr m pos num only show ?thesis
    by blast
qed

text \<open>The theorem at \<^verbatim>\<open>RoleEnum\<close>, whose object holds the keys \<^verbatim>\<open>1\<close>, \<^verbatim>\<open>2\<close>, \<^verbatim>\<open>3\<close>
  beside the three names: three instances are created and fill \<^verbatim>\<open>cases\<close>, \<^verbatim>\<open>ADMIN\<close>
  has its accessor and its entry in the reverse index, and the collection has no property
  \<^verbatim>\<open>1\<close>, \<^verbatim>\<open>2\<close> or \<^verbatim>\<open>3\<close>.\<close>

theorem numeric_keys_excluded_witness:
  "\<exists>c h' m. createBackedEnum [] RoleEnum (EnumCase :: unit case_class) = Inr (c, h') \<and>
     Object_keys RoleEnum = [''1'', ''2'', ''3'', ''ADMIN'', ''USER'', ''GUEST''] \<and>
     h' = [new_case (EnumCase :: unit case_class) ''ADMIN'' (PNum (Finite 1)),
           new_case (EnumCase :: unit case_class) ''USER'' (PNum (Finite 2)),
           new_case (EnumCase :: unit case_class) ''GUEST'' (PNum (Finite 3))] \<and>
     own c ''cases'' = Some (Array [0, 1, 2]) \<and>
     own c ''map'' = Some (RevMap m) \<and>
     (\<exists>i a. cases_at c i = Some i \<and> accessor c ''ADMIN'' = Some i \<and>
        get_name h' i = JString ''ADMIN'' \<and>
        m (PNum (Finite 1)) = Some a \<and> get_value h' a = JNumber (Finite 1)) \<and>
     own c ''1'' = None \<and> own c ''2'' = None \<and> own c ''3'' = None"
proof -
  have f: "filter (\<lambda>key. isNaN_Number key) (Object_keys RoleEnum) = [''ADMIN'', ''USER'', ''GUEST'']"
    using keys_RoleEnum by (simp add: keys_def)
  have k: "Object_keys RoleEnum = [''1'', ''2'', ''3'', ''ADMIN'', ''USER'', ''GUEST'']"
    by (simp add: RoleEnum_def object_def)
  from numeric_keys_excluded [OF distinct_RoleEnum, of "[]" "EnumCase :: unit case_class"]
  obtain c h' m where b: "createBackedEnum [] RoleEnum (EnumCase :: unit case_class) = Inr (c, h')"
    and heap: "h' = [] @ map (\<lambda>k. new_case (EnumCase :: unit case_class) k (property RoleEnum k))
                      (filter (\<lambda>key. isNaN_Number key) (Object_keys RoleEnum))"
    and arr: "own c ''cases'' = Some (Array [length ([] :: heap) ..< length h'])"
    and m: "own c ''map'' = Some (RevMap m)"
    and pos: "\<forall>k \<in> set (Object_keys RoleEnum). isNaN_Number k \<longrightarrow>
              (\<exists>i a. cases_at c i = Some (length ([] :: heap) + i) \<and>
                 accessor c k = Some (length ([] :: heap) + i) \<and>
                 get_name h' (length ([] :: heap) + i) = JString k \<and>
                 get_value h' (length ([] :: heap) + i) = of_prim (property RoleEnum k) \<and>
                 m (property RoleEnum k) = Some a \<and>
                 get_value h' a = of_prim (property RoleEnum k))"
    and num: "\<forall>k. \<not> isNaN_Number k \<longrightarrow> own c k = None"
    by (auto simp: keys_RoleEnum)
  from heap have h': "h' = [new_case (EnumCase :: unit case_class) ''ADMIN'' (PNum (Finite 1)),
           new_case (EnumCase :: unit case_class) ''USER'' (PNum (Finite 2)),
           new_case (EnumCase :: unit case_class) ''GUEST'' (PNum (Finite 3))]"
    by (simp add: f property_RoleEnum)
  from arr h' have arr': "own c ''cases'' = Some (Array [0, 1, 2])"
    by (simp add: upt_rec)
  have "''ADMIN'' \<in> set (Object_keys RoleEnum)" "isNaN_Number ''ADMIN''"
    by (simp_all add: k Number_defs)
  with pos have "\<exists>i a. cases_at c i = Some i \<and> accessor c ''ADMIN'' = Some i \<and>
        get_name h' i = JString ''ADMIN'' \<and>
        m (PNum (Finite 1)) = Some a \<and> get_value h' a = JNumber (Finite 1)"
    by (fastforce simp: property_RoleEnum)
  with b k h' arr' m num numeric_RoleEnum show ?thesis
    by blast
qed

text \<open>C8 as stated fails at \<^verbatim>\<open>{ map: 1, B: 2, C: 3 }\<close>: the coercion of each of the three
  keys is \<open>NaN\<close>, the first pass of the loop replaces the reverse index by the instance of
  the case \<^verbatim>\<open>map\<close>, and the second pass throws a \<^verbatim>\<open>TypeError\<close> at \<^verbatim>\<open>this.map.set\<close>:
  no collection is built, and no case for \<^verbatim>\<open>C\<close>.\<close>

theorem numeric_keys_counterexample:
  "keys (object [(''map'', PNum (Finite 1)), (''B'', PNum (Finite 2)), (''C'', PNum (Finite 3))])
     = [''map'', ''B'', ''C''] \<and>
   createBackedEnum []
     (object [(''map'', PNum (Finite 1)), (''B'', PNum (Finite 2)), (''C'', PNum (Finite 3))])
     (EnumCase :: unit case_class) = Inl TypeError"
  by (simp add: keys_def object_def Number_defs run_defs EnumCase_def)

subsection \<open>C9: the order of traits\<close>

text \<open>
  C9, on \<^verbatim>\<open>withTraits\<close> as the spec describes it. When the modules \<open>M1\<close> and \<open>M2\<close> both
  define a method \<open>f\<close>, the case type that \<^verbatim>\<open>createEnumCase(M1, M2)\<close> returns has the \<open>f\<close>
  of \<open>M2\<close>, and the one that \<^verbatim>\<open>createEnumCase(M2, M1)\<close> returns has the \<open>f\<close> of \<open>M1\<close>; a
  module alone gives its \<open>f\<close> to the case type, also when \<open>f\<close> is \<^verbatim>\<open>toString\<close>, which the
  base \<^verbatim>\<open>EnumCase\<close> defines; and for any list of modules, a module appended to it
  overrides what the list and the base define, method by method.
\<close>

theorem later_trait_overrides:
  assumes "M1 f = Some b1" and "M2 f = Some b2"
  shows "methods (createEnumCase n [M1, M2]) f = Some b2 \<and>
         methods (createEnumCase n [M2, M1]) f = Some b1 \<and>
         methods (createEnumCase n [M1]) f = Some b1 \<and>
         (f = ''toString'' \<longrightarrow> methods EnumCase f = Some EnumCase_toString) \<and>
         methods (createEnumCase n (ts @ [M2])) f = Some b2 \<and>
         (\<forall>g. M2 g = None \<longrightarrow>
            methods (createEnumCase n (ts @ [M2])) g = methods (createEnumCase n ts) g)"
  using assms
  by (auto simp: methods_createEnumCase map_add_def EnumCase_def split: option.splits)

text \<open>The theorem at the traits of the test suite, with a \<^verbatim>\<open>toString\<close> added to
  \<^verbatim>\<open>Comparable\<close>: whichever of the two stands last supplies \<^verbatim>\<open>toString\<close>. As in the
  test suite, \<^verbatim>\<open>createEnumCase(Comparable, Stringable)\<close> has the \<^verbatim>\<open>toString\<close> of
  \<^verbatim>\<open>Stringable\<close>, not that of \<^verbatim>\<open>EnumCase\<close>.\<close>

theorem later_trait_overrides_witness:
  "methods (createEnumCase 1
       [Comparable(''toString'' \<mapsto> Trait_method ''Comparable.toString''), Stringable])
     ''toString'' = Some (Trait_method ''Stringable.toString'') \<and>
   methods (createEnumCase 1
       [Stringable, Comparable(''toString'' \<mapsto> Trait_method ''Comparable.toString'')])
     ''toString'' = Some (Trait_method ''Comparable.toString'') \<and>
   methods (createEnumCase 1 [Comparable, Stringable]) ''toString''
     = Some (Trait_method ''Stringable.toString'') \<and>
   methods (EnumCase :: string case_class) ''toString'' = Some EnumCase_toString"
proof -
  let ?C = "Comparable(''toString'' \<mapsto> Trait_method ''Comparable.toString'')"
  have 1: "?C ''toString'' = Some (Trait_method ''Comparable.toString'')" by simp
  have 2: "Stringable ''toString'' = Some (Trait_method ''Stringable.toString'')"
    by (simp add: Stringable_def)
  from later_trait_overrides [of ?C "''toString''" _ Stringable _ 1 "[Comparable]", OF 1 2]
  show ?thesis
    by (simp add: methods_createEnumCase Comparable_def Stringable_def EnumCase_def)
qed

subsection \<open>C10: the build against the source\<close>

text \<open>
  C10 fails on the code: the \<^verbatim>\<open>from\<close> of \<^verbatim>\<open>dist/index.js\<close> looks its argument up in the
  reverse index and nothing else. For \<^verbatim>\<open>RoleEnum\<close> and the candidate \<^verbatim>\<open>Role.ADMIN\<close>, the
  object at address 0, the source's \<^verbatim>\<open>from\<close> returns that object and the build's returns
  \<^verbatim>\<open>undefined\<close>.
\<close>

theorem dist_from_drops_instances:
  "\<exists>c h'. createBackedEnum [] RoleEnum (EnumCase :: unit case_class) = Inr (c, h') \<and>
     accessor c ''ADMIN'' = Some 0 \<and>
     call_from c h' (JObject 0) = Returns (Some 0) \<and>
     call_dist_from c h' (JObject 0) = Inr None"
  by (simp add: keys_RoleEnum property_RoleEnum run_defs EnumCase_def)

end
